theory Spec2Isabelle
  imports Complex_Main
begin

section \<open>Pocket Drums: the audio engine of \<^verbatim>\<open>app.js\<close>\<close>

text \<open>
  The development embeds the engine of \<^verbatim>\<open>src/app.js\<close>: runtime synthesis of the
  drum buffers, pad playback with the hi-hat choke, the metronome's lookahead
  scheduler, the recorder with its 60 second cap and the persisted latency offset.

  Conventions of the embedding.
  \<^item> A JavaScript number is a real; IEEE rounding is not modelled. Where the source can
    produce \<^verbatim>\<open>NaN\<close> or \<^verbatim>\<open>Infinity\<close> the value is a \<open>jsnum\<close> or an \<open>int option\<close>.
  \<^item> The module-level object \<^verbatim>\<open>state\<close> is the record \<open>state\<close>. What the code does to
    the browser (nodes started on the audio clock, pending \<^verbatim>\<open>setTimeout\<close> callbacks,
    \<^verbatim>\<open>localStorage\<close>, the playback element) is kept in further fields of the same
    record. DOM text and CSS classes are not modelled.
  \<^item> Every handler runs to completion; the readings of the audio clock
    (\<^verbatim>\<open>ctx.currentTime\<close>) and of the wall clock (\<^verbatim>\<open>Date.now()\<close>) that a handler takes
    are parameters of its model.
  \<^item> An exception thrown by a handler is \<open>Inl\<close> of a sum; a loop that never returns
    is \<open>None\<close> of an option.
\<close>

subsection \<open>JavaScript values\<close>

datatype js_error = TypeError | RangeError

text \<open>Numbers on the audio clock: finite, \<^verbatim>\<open>Infinity\<close> or \<^verbatim>\<open>NaN\<close>.\<close>

datatype jsnum = Num real | Infinity | NaN

fun js_add :: "jsnum \<Rightarrow> jsnum \<Rightarrow> jsnum" where
  "js_add (Num a) (Num b) = Num (a + b)"
| "js_add NaN _ = NaN"
| "js_add _ NaN = NaN"
| "js_add _ _ = Infinity"

text \<open>\<^verbatim>\<open>60.0 / x\<close> for the result \<open>x\<close> of \<^verbatim>\<open>parseInt\<close>: an integer, or \<open>None\<close> for
  \<^verbatim>\<open>NaN\<close>. Division by zero gives \<^verbatim>\<open>Infinity\<close>.\<close>

definition js_div_into_60 :: "int option \<Rightarrow> jsnum" where
  "js_div_into_60 x =
     (case x of None \<Rightarrow> NaN
      | Some b \<Rightarrow> if b = 0 then Infinity else Num (60 / real_of_int b))"

text \<open>
  \<^verbatim>\<open>parseInt(string, 10)\<close>: leading white space is skipped, one sign is read, and the
  longest run of decimal digits gives the value; without a digit the result is
  \<^verbatim>\<open>NaN\<close> (\<open>None\<close>). Strings are byte strings, so only the ASCII white space is
  skipped. Integers are exact: the rounding of integers beyond \<open>2^53\<close> and the negative
  zero are not modelled.
\<close>

definition is_space :: "char \<Rightarrow> bool" where
  "is_space c \<longleftrightarrow> (of_char c :: nat) \<in> {9, 10, 11, 12, 13, 32}"

definition is_digit :: "char \<Rightarrow> bool" where
  "is_digit c \<longleftrightarrow> 48 \<le> (of_char c :: nat) \<and> (of_char c :: nat) \<le> 57"

definition digit_value :: "char \<Rightarrow> nat" where
  "digit_value c = of_char c - 48"

definition digits_value :: "string \<Rightarrow> nat" where
  "digits_value z = foldl (\<lambda>a c. 10 * a + digit_value c) 0 z"

definition parseInt :: "string \<Rightarrow> int option" where
  "parseInt string =
     (let S = dropWhile is_space string;
          sign = (case S of c # _ \<Rightarrow> if c = CHR ''-'' then - 1 else 1 | [] \<Rightarrow> (1::int));
          S' = (case S of c # r \<Rightarrow> if c = CHR ''-'' \<or> c = CHR ''+'' then r else S
                | [] \<Rightarrow> []);
          Z = takeWhile is_digit S'
      in if Z = [] then None else Some (sign * int (digits_value Z)))"

text \<open>\<^verbatim>\<open>String(n)\<close> for an integer \<open>n\<close>: up to 21 digits are printed in full; from
  \<open>10^21\<close> on the exponent notation is used, the digits without their trailing zeros
  with a point behind the first one, then \<^verbatim>\<open>e+\<close> and the exponent.\<close>

fun digits_of :: "nat \<Rightarrow> string" where
  "digits_of n =
     (if n < 10 then [char_of (48 + n)]
      else digits_of (n div 10) @ [char_of (48 + n mod 10)])"

declare digits_of.simps [simp del]

definition strip_zeros :: "string \<Rightarrow> string" where
  "strip_zeros z = rev (dropWhile (\<lambda>c. c = CHR ''0'') (rev z))"

definition String :: "int \<Rightarrow> string" where
  "String n =
     (let z = digits_of (nat \<bar>n\<bar>);
          sign = (if n < 0 then ''-'' else [])
      in if length z \<le> 21 then sign @ z
         else let sig = strip_zeros z
              in sign @ (if length sig = 1 then sig else hd sig # CHR ''.'' # tl sig)
                   @ ''e+'' @ digits_of (length z - 1))"

text \<open>\<^verbatim>\<open>x || 0\<close> for the result \<open>x\<close> of \<^verbatim>\<open>parseInt\<close>: \<^verbatim>\<open>NaN\<close> and \<open>0\<close> are falsy.\<close>

definition or_zero :: "int option \<Rightarrow> int" where
  "or_zero x = (case x of None \<Rightarrow> 0 | Some n \<Rightarrow> n)"

subsection \<open>The audio graph\<close>

text \<open>An \<^verbatim>\<open>AudioParam\<close> as the code uses it on the pad gains: the \<^verbatim>\<open>value\<close> attribute and
  the timeline of \<^verbatim>\<open>setTargetAtTime(target, startTime, timeConstant)\<close> events.\<close>

record set_target =
  target :: real
  startTime :: real
  timeConstant :: real

record audio_param =
  pvalue :: real
  events :: "set_target list"

record audio_context =
  sampleRate :: real

record blob =
  bsize :: nat
  btype :: string

datatype recording_state = inactive | rec_recording

record media_recorder =
  rstate :: recording_state
  mimeType :: string

subsection \<open>The engine state\<close>

record state =
  ctx :: "audio_context option"
  recDest :: bool
  nextTick :: jsnum
  isMetronomeOn :: bool
  bpm :: "int option"
  latencyMs :: "int option"
  kit :: string
  maxRecSec :: int
  recording :: bool
  recorder :: "media_recorder option"
  chunks :: "blob list"
  buffers :: "string \<rightharpoonup> (string \<rightharpoonup> real list)"
  gains :: "string \<rightharpoonup> audio_param"
  \<comment> \<open>effects on the browser\<close>
  clicks :: "real list"
  sources :: "(string \<times> real \<times> real) list"
  schedulerTimers :: nat
  chokeTimers :: nat
  polls :: "(int \<times> int) list"
  playback :: "blob option"
  localStorage :: "string \<rightharpoonup> string"

text \<open>
  \<open>clicks\<close>: the start times of the oscillators \<^verbatim>\<open>scheduleClick\<close> has started, oldest
  first. \<open>sources\<close>: the buffer sources \<^verbatim>\<open>playPad\<close> has started (pad, velocity, start
  time). \<open>schedulerTimers\<close>: pending \<^verbatim>\<open>setTimeout(runScheduler, 25)\<close> callbacks.
  \<open>chokeTimers\<close>: pending 30 ms restore callbacks of \<^verbatim>\<open>chokeHiHat\<close>. \<open>polls\<close>: pending
  \<^verbatim>\<open>setTimeout(tick, 250)\<close> callbacks of the recorder, oldest first, each with the
  \<^verbatim>\<open>started\<close> its closure holds and the wall-clock time at which it is due, 250 ms after
  the call of \<^verbatim>\<open>setTimeout\<close>. \<open>playback\<close>: the blob behind \<^verbatim>\<open>playback.src\<close>.
\<close>

definition lookahead :: nat where
  "lookahead = 25"

definition scheduleAheadTime :: real where
  "scheduleAheadTime = 0.12"

subsection \<open>Pads and default gains\<close>

definition PADS :: "string list" where
  "PADS = [''kick'', ''snare'', ''hatC'', ''hatO'', ''hatP'',
           ''tom1'', ''tom2'', ''tom3'', ''crash'', ''ride'']"

definition defaultPadGain :: "string \<Rightarrow> real" where
  "defaultPadGain id' =
     (if id' = ''kick'' then 0.9 else if id' = ''snare'' then 0.85
      else if id' = ''hatC'' then 0.6 else if id' = ''hatO'' then 0.6
      else if id' = ''hatP'' then 0.5
      else if id' = ''tom1'' \<or> id' = ''tom2'' \<or> id' = ''tom3'' then 0.8
      else if id' = ''crash'' \<or> id' = ''ride'' then 0.65
      else 0.7)"

subsection \<open>Metronome\<close>

text \<open>
  The \<^verbatim>\<open>while\<close> loop of \<^verbatim>\<open>runScheduler\<close>, with \<open>limit\<close> for
  \<^verbatim>\<open>ctx.currentTime + scheduleAheadTime\<close>. A comparison with \<^verbatim>\<open>NaN\<close> or of \<^verbatim>\<open>Infinity\<close>
  below a finite number is false, so only a finite \<open>nextTick\<close> enters the body.
  \<^verbatim>\<open>scheduleClick(when)\<close> is the entry \<open>when\<close> appended to \<open>clicks\<close>.
  \<open>None\<close>: the loop never returns.
\<close>

partial_function (option) tick_loop ::
  "real \<Rightarrow> jsnum \<Rightarrow> jsnum \<Rightarrow> real list \<Rightarrow> (jsnum \<times> real list) option" where
  "tick_loop limit secondsPerBeat nt cl =
     (case nt of
        Num t \<Rightarrow>
          if t < limit
          then tick_loop limit secondsPerBeat (js_add (Num t) secondsPerBeat) (cl @ [t])
          else Some (nt, cl)
      | _ \<Rightarrow> Some (nt, cl))"

definition runScheduler :: "real \<Rightarrow> state \<Rightarrow> state option" where
  "runScheduler now s =
     (if \<not> isMetronomeOn s then Some s
      else case tick_loop (now + scheduleAheadTime) (js_div_into_60 (bpm s))
                  (nextTick s) (clicks s) of
             None \<Rightarrow> None
           | Some (nt, cl) \<Rightarrow>
               Some (s\<lparr>nextTick := nt, clicks := cl,
                       schedulerTimers := Suc (schedulerTimers s)\<rparr>))"

text \<open>A pending \<^verbatim>\<open>setTimeout(runScheduler, ...)\<close> fires at audio time \<open>now\<close>.\<close>

definition scheduler_wake :: "real \<Rightarrow> state \<Rightarrow> state option" where
  "scheduler_wake now s =
     (if schedulerTimers s = 0 then Some s
      else runScheduler now (s\<lparr>schedulerTimers := schedulerTimers s - 1\<rparr>))"

fun run_wakes :: "real list \<Rightarrow> state \<Rightarrow> state option" where
  "run_wakes [] s = Some s"
| "run_wakes (w # ws) s =
     (case scheduler_wake w s of None \<Rightarrow> None | Some s' \<Rightarrow> run_wakes ws s')"

text \<open>The part of \<^verbatim>\<open>initAudio\<close> that runs before its first \<^verbatim>\<open>await\<close>: the context, the
  recording tap and one gain per pad.\<close>

definition initAudio_sync :: "state \<Rightarrow> state" where
  "initAudio_sync s =
     (if ctx s \<noteq> None then s
      else s\<lparr>ctx := Some \<lparr>sampleRate = 44100\<rparr>, recDest := True,
             gains := (\<lambda>i. if i \<in> set PADS
                             then Some \<lparr>pvalue = defaultPadGain i, events = []\<rparr>
                             else gains s i)\<rparr>)"

text \<open>The click handler of \<^verbatim>\<open>metroBtn\<close>, at audio time \<open>now\<close>.\<close>

definition metroBtn_click :: "real \<Rightarrow> state \<Rightarrow> state option" where
  "metroBtn_click now s0 =
     (let s1 = (if ctx s0 = None then initAudio_sync s0 else s0);
          s2 = s1\<lparr>isMetronomeOn := \<not> isMetronomeOn s1\<rparr>
      in if isMetronomeOn s2
         then runScheduler now (s2\<lparr>nextTick := Num (now + 0.05)\<rparr>)
         else Some s2)"

subsection \<open>Recorder\<close>

text \<open>
  \<^verbatim>\<open>tick\<close>, the closure of \<^verbatim>\<open>startRecording\<close> that holds \<open>started\<close>, woken when
  \<^verbatim>\<open>Date.now()\<close> is \<open>now\<close> (milliseconds). \<^verbatim>\<open>recorder.stop()\<close> makes the recorder
  inactive, delivers the data gathered so far to \<^verbatim>\<open>ondataavailable\<close> (\<open>last_data\<close>,
  kept when its size is positive) and then fires \<^verbatim>\<open>onstop\<close>, whose handler
  \<^verbatim>\<open>onRecStop\<close> builds one blob from the chunks; its type is that of the first chunk,
  or \<^verbatim>\<open>'audio/webm'\<close> when there is no chunk or its type is the empty string.
\<close>

definition ondataavailable :: "blob \<Rightarrow> state \<Rightarrow> state" where
  "ondataavailable d s = (if bsize d > 0 then s\<lparr>chunks := chunks s @ [d]\<rparr> else s)"

definition onRecStop :: "state \<Rightarrow> state" where
  "onRecStop s =
     s\<lparr>playback := Some \<lparr>bsize = sum_list (map bsize (chunks s)),
                          btype = (case chunks s of [] \<Rightarrow> ''audio/webm''
                                   | c # _ \<Rightarrow> if btype c = [] then ''audio/webm''
                                              else btype c)\<rparr>\<rparr>"

definition stopRecording :: "blob \<Rightarrow> state \<Rightarrow> js_error + state" where
  "stopRecording last_data s =
     (if \<not> recording s then Inr s
      else case recorder s of
             None \<Rightarrow> Inl TypeError
           | Some r \<Rightarrow>
               Inr (onRecStop (ondataavailable last_data
                      (s\<lparr>recording := False,
                         recorder := Some (r\<lparr>rstate := inactive\<rparr>)\<rparr>))))"

definition tick :: "int \<Rightarrow> int \<Rightarrow> blob \<Rightarrow> state \<Rightarrow> js_error + state" where
  "tick started now last_data s =
     (if \<not> recording s then Inr s
      else let sec = (now - started) div 1000
           in if sec \<ge> maxRecSec s then stopRecording last_data s
              else Inr (s\<lparr>polls := polls s @ [(started, now + 250)]\<rparr>))"

text \<open>\<^verbatim>\<open>startRecording\<close> when \<^verbatim>\<open>Date.now()\<close> is \<open>now\<close>; \<open>mime\<close> is the result of
  \<^verbatim>\<open>preferredMime()\<close>. Without a recording tap, \<^verbatim>\<open>state.recDest.stream\<close> throws.\<close>

definition startRecording :: "int \<Rightarrow> string \<Rightarrow> blob \<Rightarrow> state \<Rightarrow> js_error + state" where
  "startRecording now mime last_data s =
     (if recording s then Inr s
      else if \<not> recDest s then Inl TypeError
      else tick now now last_data
             (s\<lparr>recorder := Some \<lparr>rstate = rec_recording, mimeType = mime\<rparr>,
                chunks := [], recording := True\<rparr>))"



subsection \<open>Playback and the hi-hat choke\<close>




text \<open>\<^verbatim>\<open>cancelScheduledValues(t)\<close> removes the events that start at \<open>t\<close> or later;
  \<^verbatim>\<open>setTargetAtTime\<close> inserts its event behind the events that start no later.\<close>

definition cancelScheduledValues :: "real \<Rightarrow> audio_param \<Rightarrow> audio_param" where
  "cancelScheduledValues t g = g\<lparr>events := filter (\<lambda>e. startTime e < t) (events g)\<rparr>"

definition setTargetAtTime :: "real \<Rightarrow> real \<Rightarrow> real \<Rightarrow> audio_param \<Rightarrow> audio_param" where
  "setTargetAtTime tg t0 tc g =
     g\<lparr>events := takeWhile (\<lambda>e. startTime e \<le> t0) (events g)
                   @ \<lparr>target = tg, startTime = t0, timeConstant = tc\<rparr>
                   # dropWhile (\<lambda>e. startTime e \<le> t0) (events g)\<rparr>"

definition chokeHiHat :: "real \<Rightarrow> state \<Rightarrow> state" where
  "chokeHiHat now s =
     (case gains s ''hatO'' of
        None \<Rightarrow> s
      | Some gOpen \<Rightarrow>
          s\<lparr>gains := (gains s)(''hatO'' \<mapsto>
                        setTargetAtTime 0.0001 now 0.01 (cancelScheduledValues now gOpen)),
            chokeTimers := Suc (chokeTimers s)\<rparr>)"


text \<open>
  \<^verbatim>\<open>playPad(id, velocity)\<close> at audio time \<open>now\<close>. Reading \<^verbatim>\<open>kit[id]\<close> of an undefined
  kit throws a \<^verbatim>\<open>TypeError\<close>, as does connecting to an undefined gain and starting a
  source at \<^verbatim>\<open>NaN\<close>; starting it at a negative time throws a \<^verbatim>\<open>RangeError\<close>.
\<close>

definition playPad :: "real \<Rightarrow> string \<Rightarrow> real \<Rightarrow> state \<Rightarrow> js_error + state" where
  "playPad now id' velocity s =
     (if ctx s = None then Inr s
      else case buffers s (kit s) of
             None \<Rightarrow> Inl TypeError
           | Some kit' \<Rightarrow>
              (case kit' id' of
                 None \<Rightarrow> Inr s
               | Some buf \<Rightarrow>
                   let s1 = (if id' = ''hatC'' \<or> id' = ''hatP'' then chokeHiHat now s else s)
                   in (case gains s1 id' of
                         None \<Rightarrow> Inl TypeError
                       | Some g \<Rightarrow>
                          (case latencyMs s1 of
                             None \<Rightarrow> Inl TypeError
                           | Some l \<Rightarrow>
                               (let when = now + real_of_int l / 1000
                                in if when < 0 then Inl RangeError
                                   else Inr (s1\<lparr>sources :=
                                               sources s1 @ [(id', velocity, when)]\<rparr>))))))"

subsection \<open>Latency setting\<close>

text \<open>The initialiser of \<^verbatim>\<open>state.latencyMs\<close>:
  \<^verbatim>\<open>parseInt(localStorage.getItem('latencyMs')||'0',10)\<close>.\<close>

definition load_latencyMs :: "(string \<rightharpoonup> string) \<Rightarrow> int option" where
  "load_latencyMs store =
     parseInt (case store ''latencyMs'' of
                 None \<Rightarrow> ''0''
               | Some v \<Rightarrow> if v = [] then ''0'' else v)"

text \<open>The click handler of \<^verbatim>\<open>saveLatencyBtn\<close>; \<open>v\<close> is \<^verbatim>\<open>latencyEl.value\<close>.\<close>

definition saveLatency_click :: "string \<Rightarrow> state \<Rightarrow> state" where
  "saveLatency_click v s =
     (let n = or_zero (parseInt v)
      in s\<lparr>latencyMs := Some n,
           localStorage := (localStorage s)(''latencyMs'' \<mapsto> String n)\<rparr>)"

text \<open>The input handler of \<^verbatim>\<open>tempoEl\<close>; \<open>v\<close> is \<^verbatim>\<open>tempoEl.value\<close>.\<close>

definition tempo_input :: "string \<Rightarrow> state \<Rightarrow> state" where
  "tempo_input v s = s\<lparr>bpm := parseInt v\<rparr>"

text \<open>The object \<^verbatim>\<open>state\<close> as the module creates it, given the stored settings.\<close>

definition initial_state :: "(string \<rightharpoonup> string) \<Rightarrow> state" where
  "initial_state store =
     \<lparr>ctx = None, recDest = False, nextTick = Num 0, isMetronomeOn = False,
      bpm = Some 120, latencyMs = load_latencyMs store, kit = ''rock'',
      maxRecSec = 60, recording = False, recorder = None, chunks = [],
      buffers = Map.empty, gains = Map.empty,
      clicks = [], sources = [], schedulerTimers = 0, chokeTimers = 0, polls = [],
      playback = None, localStorage = store\<rparr>"

subsection \<open>Soft clipper\<close>

definition makeSoftClipCurve :: "real \<Rightarrow> real list" where
  "makeSoftClipCurve amount =
     map (\<lambda>i. let x = (real i / (1024 - 1)) * 2 - 1
               in tanh (amount * 2 * x) / tanh (amount * 2))
         [0..<1024]"

text \<open>How a \<^verbatim>\<open>WaveShaperNode\<close> reads a curve of \<open>N\<close> points at an input \<open>x\<close> in
  \<open>[-1, 1]\<close>: linear interpolation at position \<open>(N - 1) / 2 * (x + 1)\<close>.\<close>

definition curve_at :: "real list \<Rightarrow> real \<Rightarrow> real" where
  "curve_at curve x =
     (let v = (real (length curve) - 1) / 2 * (x + 1);
          k = nat \<lfloor>v\<rfloor>;
          f = v - real k
      in if k + 1 < length curve then (1 - f) * curve ! k + f * curve ! (k + 1)
         else curve ! (length curve - 1))"

subsection \<open>Synthesis\<close>

text \<open>
  A buffer is the list of its samples. \<open>rnd i\<close> is the value \<^verbatim>\<open>Math.random()\<close> returns
  while sample \<open>i\<close> of the buffer is rendered. \<^verbatim>\<open>renderToBuffer\<close> allocates
  \<^verbatim>\<open>Math.round(seconds*sr)\<close> samples, lets \<open>renderFn\<close> fill them and runs the
  smoothing pass \<^verbatim>\<open>data[i] = x - prev + 0.995*(data[i-1]||0)\<close> over them.
\<close>

definition Math_round :: "real \<Rightarrow> int" where
  "Math_round x = \<lfloor>x + 1 / 2\<rfloor>"

fun dc_filter :: "real \<Rightarrow> real \<Rightarrow> real list \<Rightarrow> real list" where
  "dc_filter prev yprev [] = []"
| "dc_filter prev yprev (x # xs) =
     (let y = x - prev + 0.995 * yprev in y # dc_filter x y xs)"

definition renderToBuffer :: "real \<Rightarrow> real \<Rightarrow> (nat \<Rightarrow> real \<Rightarrow> real list) \<Rightarrow> real list" where
  "renderToBuffer sr seconds renderFn =
     dc_filter 0 0 (renderFn (nat (Math_round (seconds * sr))) sr)"


definition synthSnare :: "real \<Rightarrow> string \<Rightarrow> (nat \<Rightarrow> real) \<Rightarrow> real list" where
  "synthSnare sr0 flavor rnd =
     (let dur = 1.0; tone = (if flavor = ''rock'' then 210 else 180);
          noiseAmt = (if flavor = ''rock'' then 0.75 else 0.9)
      in renderToBuffer sr0 dur (\<lambda>len sr.
           map (\<lambda>i.
                let t = real i / sr;
                    env = exp (- t * 8);
                    toneEnv = exp (- t * 12);
                    noise = (rnd i * 2 - 1) * env * noiseAmt;
                    body = sin (2 * pi * tone * t) * toneEnv * 0.8
                in noise + body)
              [0..<len]))"

text \<open>\<^verbatim>\<open>Math.sign\<close> as a 32-bit integer, for the bitwise \<^verbatim>\<open>^\<close> of the hi-hat.\<close>

definition Math_sign :: "real \<Rightarrow> int" where
  "Math_sign x = (if x > 0 then 1 else if x < 0 then - 1 else 0)"

text \<open>The hi-hat's one-pole low-pass \<^verbatim>\<open>data[i] = (data[i-1]||0)*alpha + (1-alpha)*n\<close>.\<close>

fun one_pole :: "real \<Rightarrow> real \<Rightarrow> real list \<Rightarrow> real list" where
  "one_pole alpha prev [] = []"
| "one_pole alpha prev (n # ns) =
     (let y = prev * alpha + (1 - alpha) * n in y # one_pole alpha y ns)"

definition synthHat :: "real \<Rightarrow> string \<Rightarrow> string \<Rightarrow> (nat \<Rightarrow> real) \<Rightarrow> real list" where
  "synthHat sr0 type flavor rnd =
     (let dur = (if type = ''open'' then 1.6 else if type = ''pedal'' then 0.12 else 0.25);
          br = (if flavor = ''rock'' then 9000 else 7000)
      in renderToBuffer sr0 dur (\<lambda>len sr.
           let cutoff = br; alpha = exp (- 2 * pi * cutoff / sr)
           in one_pole alpha 0
                (map (\<lambda>i.
                   let t = real i / sr;
                       env = (if type = ''open'' then exp (- t * 3) else exp (- t * 35));
                       s = xor (xor (Math_sign (sin (2 * pi * 215 * t)))
                                    (Math_sign (sin (2 * pi * 341 * t))))
                               (Math_sign (sin (2 * pi * 456 * t)))
                   in ((if s \<noteq> 0 then 1 else - 1) + rnd i * 0.2) * env)
                 [0..<len])))"





subsection \<open>Auxiliary predicates\<close>

text \<open>The scheduler is running at tempo \<open>b\<close>: behind \<open>base\<close>, the clicks are the
  ticks \<open>T + k * 60 / b\<close> below \<open>L\<close>, and the next tick is the first one not below.\<close>

definition ticking :: "int \<Rightarrow> real list \<Rightarrow> real \<Rightarrow> real \<Rightarrow> nat \<Rightarrow> state \<Rightarrow> bool" where
  "ticking b base T L N s \<longleftrightarrow>
     isMetronomeOn s \<and> bpm s = Some b \<and> 0 < schedulerTimers s
     \<and> nextTick s = Num (T + real N * (60 / real_of_int b))
     \<and> clicks s = base @ map (\<lambda>k. T + real k * (60 / real_of_int b)) [0..<N]
     \<and> (\<forall>k. k < N \<longleftrightarrow> T + real k * (60 / real_of_int b) < L)"


text \<open>The offset the smoothing pass of \<^verbatim>\<open>renderToBuffer\<close> adds to sample \<open>i\<close> of the samples
  \<open>x\<close>: output \<open>i\<close> is \<open>x i + dcE x i\<close>.\<close>

fun dcE :: "(nat \<Rightarrow> real) \<Rightarrow> nat \<Rightarrow> real" where
  "dcE x 0 = 0"
| "dcE x (Suc i) = 0.995 * dcE x i - 0.005 * x i"



section \<open>Properties\<close>

subsection \<open>Metronome: the scheduling loop\<close>

lemma tick_loop_finite:
  assumes d: "0 < d"
  shows "nat \<lceil>(limit - t) / d\<rceil> = n \<Longrightarrow>
         tick_loop limit (Num d) (Num t) cl =
           Some (Num (t + real n * d), cl @ map (\<lambda>k. t + real k * d) [0..<n])"
proof (induction n arbitrary: t cl)
  case 0
  then have "(limit - t) / d \<le> 0" by simp
  with d have "\<not> t < limit" by (simp add: divide_le_0_iff)
  then show ?case by (subst tick_loop.simps) simp
next
  case (Suc n)
  then have pos: "0 < \<lceil>(limit - t) / d\<rceil>" by linarith
  then have "0 < (limit - t) / d" by simp
  with d have lt: "t < limit" by (simp add: zero_less_divide_iff)
  have "(limit - (t + d)) / d = (limit - t) / d - 1"
    using d by (simp add: field_simps)
  then have "nat \<lceil>(limit - (t + d)) / d\<rceil> = n"
    using Suc.prems by simp
  from Suc.IH [OF this, of "cl @ [t]"] lt show ?case
    by (subst tick_loop.simps) (simp add: map_upt_Suc algebra_simps del: upt_Suc)
qed

lemma tick_count_iff:
  assumes "0 < d"
  shows "k < nat \<lceil>(limit - t) / d\<rceil> \<longleftrightarrow> t + real k * d < limit"
proof -
  have "k < nat \<lceil>(limit - t) / d\<rceil> \<longleftrightarrow> int k < \<lceil>(limit - t) / d\<rceil>" by linarith
  also have "\<dots> \<longleftrightarrow> real k < (limit - t) / d" by (simp add: less_ceiling_iff)
  also have "\<dots> \<longleftrightarrow> t + real k * d < limit" using assms by (simp add: field_simps)
  finally show ?thesis .
qed

text \<open>One run of the scheduler at a positive tempo.\<close>

lemma runScheduler_step:
  fixes b :: int
  assumes b: "0 < b" and s: "isMetronomeOn s" "bpm s = Some b" "nextTick s = Num t"
  shows "\<exists>n. runScheduler now s =
               Some (s\<lparr>nextTick := Num (t + real n * (60 / real_of_int b)),
                       clicks := clicks s @ map (\<lambda>k. t + real k * (60 / real_of_int b)) [0..<n],
                       schedulerTimers := Suc (schedulerTimers s)\<rparr>)
             \<and> (\<forall>k. k < n \<longleftrightarrow> t + real k * (60 / real_of_int b) < now + scheduleAheadTime)"
proof -
  define d where "d = 60 / real_of_int b"
  define n where "n = nat \<lceil>(now + scheduleAheadTime - t) / d\<rceil>"
  have d: "0 < d" using b by (simp add: d_def)
  have spb: "js_div_into_60 (Some b) = Num d"
    using b by (simp add: js_div_into_60_def d_def)
  have "runScheduler now s =
          Some (s\<lparr>nextTick := Num (t + real n * d),
                  clicks := clicks s @ map (\<lambda>k. t + real k * d) [0..<n],
                  schedulerTimers := Suc (schedulerTimers s)\<rparr>)"
    using s tick_loop_finite [OF d, of "now + scheduleAheadTime" t n "clicks s"]
    by (simp add: runScheduler_def spb n_def)
  moreover have "\<forall>k. k < n \<longleftrightarrow> t + real k * d < now + scheduleAheadTime"
    using tick_count_iff [OF d] by (simp add: n_def)
  ultimately show ?thesis unfolding d_def by blast
qed

lemma map_upt_add:
  "map f [0..<N] @ map (\<lambda>k. f (N + k)) [0..<n] = map f [0..<N + n]"
  by (induction n) simp_all

lemma scheduler_wake_ticking:
  assumes b: "0 < b" and inv: "ticking b base T L N s"
  shows "\<exists>s' N'. scheduler_wake w s = Some s'
           \<and> ticking b base T (max L (w + scheduleAheadTime)) N' s'"
proof -
  define d where "d = 60 / real_of_int b"
  let ?s = "s\<lparr>schedulerTimers := schedulerTimers s - 1\<rparr>"
  from inv have on: "isMetronomeOn ?s" "bpm ?s = Some b"
    "nextTick ?s = Num (T + real N * d)" and timers: "0 < schedulerTimers s"
    and cl: "clicks s = base @ map (\<lambda>k. T + real k * d) [0..<N]"
    and cnt: "\<And>k. k < N \<longleftrightarrow> T + real k * d < L"
    unfolding ticking_def d_def by simp_all
  from runScheduler_step [OF b on [unfolded d_def], of w, folded d_def] obtain n where
    run: "runScheduler w ?s =
            Some (?s\<lparr>nextTick := Num (T + real N * d + real n * d),
                     clicks := clicks ?s @ map (\<lambda>k. T + real N * d + real k * d) [0..<n],
                     schedulerTimers := Suc (schedulerTimers ?s)\<rparr>)"
    and n: "\<And>k. k < n \<longleftrightarrow> T + real N * d + real k * d < w + scheduleAheadTime"
    by blast
  let ?s' = "?s\<lparr>nextTick := Num (T + real N * d + real n * d),
                 clicks := clicks ?s @ map (\<lambda>k. T + real N * d + real k * d) [0..<n],
                 schedulerTimers := Suc (schedulerTimers ?s)\<rparr>"
  have wake: "scheduler_wake w s = Some ?s'"
    using timers run by (simp add: scheduler_wake_def)
  have shift: "(\<lambda>k. T + real N * d + real k * d) = (\<lambda>k. T + real (N + k) * d)"
    by (simp add: algebra_simps)
  have clicks': "clicks ?s' = base @ map (\<lambda>k. T + real k * d) [0..<N + n]"
    using map_upt_add [of "\<lambda>k. T + real k * d" N n] by (simp add: cl shift)
  have count: "k < N + n \<longleftrightarrow> T + real k * d < max L (w + scheduleAheadTime)" for k
  proof (cases "k < N")
    case True
    then show ?thesis using cnt [of k] by simp
  next
    case False
    then have k: "k = N + (k - N)" by simp
    have "T + real k * d = T + real N * d + real (k - N) * d"
      by (subst k) (simp add: algebra_simps)
    with n [of "k - N"] cnt [of k] False show ?thesis by auto
  qed
  have next': "nextTick ?s' = Num (T + real (N + n) * d)"
    by (simp add: algebra_simps)
  have "ticking b base T (max L (w + scheduleAheadTime)) (N + n) ?s'"
    unfolding ticking_def d_def [symmetric]
    using on clicks' count next' by simp
  with wake show ?thesis by blast
qed

lemma run_wakes_ticking:
  assumes b: "0 < b"
  shows "ticking b base T (M + scheduleAheadTime) N s \<Longrightarrow>
         \<exists>s' N'. run_wakes ws s = Some s'
           \<and> ticking b base T (fold max ws M + scheduleAheadTime) N' s'"
proof (induction ws arbitrary: M N s)
  case Nil
  then show ?case by auto
next
  case (Cons w ws)
  from scheduler_wake_ticking [OF b Cons.prems, of w] obtain s1 N1 where
    1: "scheduler_wake w s = Some s1"
    and 2: "ticking b base T (max (M + scheduleAheadTime) (w + scheduleAheadTime)) N1 s1"
    by blast
  have "max (M + scheduleAheadTime) (w + scheduleAheadTime) = max w M + scheduleAheadTime"
    by (simp add: max_def)
  with 2 have "ticking b base T (max w M + scheduleAheadTime) N1 s1" by simp
  from Cons.IH [OF this] 1 show ?case by simp
qed

lemma metroBtn_click_starts:
  assumes b: "0 < b" and s: "\<not> isMetronomeOn s" "bpm s = Some b"
  shows "\<exists>s' N. metroBtn_click t0 s = Some s'
           \<and> ticking b (clicks s) (t0 + 0.05) (t0 + scheduleAheadTime) N s'"
proof -
  let ?s1 = "if ctx s = None then initAudio_sync s else s"
  let ?s3 = "?s1\<lparr>isMetronomeOn := True, nextTick := Num (t0 + 0.05)\<rparr>"
  have s1: "\<not> isMetronomeOn ?s1" "bpm ?s1 = Some b" "clicks ?s1 = clicks s"
    using s by (simp_all add: initAudio_sync_def)
  then have on: "isMetronomeOn ?s3" "bpm ?s3 = Some b" "nextTick ?s3 = Num (t0 + 0.05)"
    by simp_all
  from runScheduler_step [OF b on, of t0] obtain n where
    run: "runScheduler t0 ?s3 =
            Some (?s3\<lparr>nextTick := Num (t0 + 0.05 + real n * (60 / real_of_int b)),
                      clicks := clicks ?s3 @ map (\<lambda>k. t0 + 0.05 + real k * (60 / real_of_int b)) [0..<n],
                      schedulerTimers := Suc (schedulerTimers ?s3)\<rparr>)"
    and n: "\<And>k. k < n \<longleftrightarrow> t0 + 0.05 + real k * (60 / real_of_int b) < t0 + scheduleAheadTime"
    by blast
  have "metroBtn_click t0 s = runScheduler t0 ?s3"
    using s1 by (simp add: metroBtn_click_def Let_def)
  with run n s1 show ?thesis
    by (auto simp: ticking_def)
qed

subsection \<open>C1: clicks are spaced exactly \<open>60 / bpm\<close> apart\<close>

text \<open>
  Claim C1. At a tempo \<open>b > 0\<close>, a wake of \<^verbatim>\<open>runScheduler\<close> at audio time \<open>now\<close>
  schedules one click at each tick \<open>nextTick + k * 60 / b\<close> that lies below
  \<open>now + scheduleAheadTime\<close>, at exactly that time, advances \<open>nextTick\<close> by \<open>60 / b\<close> per
  click and re-arms its timer. Hence, after the metronome is switched on at audio time
  \<open>t0\<close> and woken at any audio times \<open>ws\<close> whatever (any jitter), the clicks scheduled
  are exactly the ticks \<open>t0 + 0.05 + k * 60 / b\<close> below the latest window
  \<open>fold max ws t0 + scheduleAheadTime\<close>: consecutive clicks are \<open>60 / b\<close> apart. At
  \<open>b = 120\<close>, when the latest wake falls into the last 75 ms of the ten seconds after
  \<open>t0\<close>, 20 or 21 clicks are scheduled, half a second apart.
\<close>

theorem metronome_clicks_evenly_spaced:
  fixes b :: int
  assumes b: "0 < b"
  shows "(isMetronomeOn r \<and> bpm r = Some b \<and> nextTick r = Num t \<longrightarrow>
            (\<exists>n. runScheduler now r =
                    Some (r\<lparr>nextTick := Num (t + real n * (60 / real_of_int b)),
                            clicks := clicks r
                              @ map (\<lambda>k. t + real k * (60 / real_of_int b)) [0..<n],
                            schedulerTimers := Suc (schedulerTimers r)\<rparr>)
                \<and> (\<forall>k. k < n \<longleftrightarrow>
                         t + real k * (60 / real_of_int b) < now + scheduleAheadTime)))
       \<and> (\<not> isMetronomeOn s \<and> bpm s = Some b \<longrightarrow>
            (\<exists>s' N. (case metroBtn_click t0 s of None \<Rightarrow> None
                       | Some s1 \<Rightarrow> run_wakes ws s1) = Some s'
                \<and> clicks s' = clicks s
                      @ map (\<lambda>k. t0 + 0.05 + real k * (60 / real_of_int b)) [0..<N]
                \<and> nextTick s' = Num (t0 + 0.05 + real N * (60 / real_of_int b))
                \<and> (\<forall>k. k < N \<longleftrightarrow>
                         t0 + 0.05 + real k * (60 / real_of_int b)
                           < fold max ws t0 + scheduleAheadTime)
                \<and> (b = 120 \<and> t0 + 10 - 0.075 \<le> fold max ws t0 \<and> fold max ws t0 \<le> t0 + 10
                     \<longrightarrow> N = 20 \<or> N = 21)))"
proof (intro conjI impI)
  assume "isMetronomeOn r \<and> bpm r = Some b \<and> nextTick r = Num t"
  then show "\<exists>n. runScheduler now r =
                    Some (r\<lparr>nextTick := Num (t + real n * (60 / real_of_int b)),
                            clicks := clicks r
                              @ map (\<lambda>k. t + real k * (60 / real_of_int b)) [0..<n],
                            schedulerTimers := Suc (schedulerTimers r)\<rparr>)
                \<and> (\<forall>k. k < n \<longleftrightarrow>
                         t + real k * (60 / real_of_int b) < now + scheduleAheadTime)"
    using runScheduler_step [OF b, of r t now] by simp
next
  assume s: "\<not> isMetronomeOn s \<and> bpm s = Some b"
  from metroBtn_click_starts [OF b, of s t0] s obtain s1 N1 where
    click: "metroBtn_click t0 s = Some s1"
    and t1: "ticking b (clicks s) (t0 + 0.05) (t0 + scheduleAheadTime) N1 s1"
    by blast
  from run_wakes_ticking [OF b t1, of ws] obtain s' N where
    run: "run_wakes ws s1 = Some s'"
    and t2: "ticking b (clicks s) (t0 + 0.05) (fold max ws t0 + scheduleAheadTime) N s'"
    by blast
  from t2 have cnt: "\<And>k. k < N \<longleftrightarrow>
      t0 + 0.05 + real k * (60 / real_of_int b) < fold max ws t0 + scheduleAheadTime"
    by (simp add: ticking_def)
  have twenty: "N = 20 \<or> N = 21"
    if "b = 120 \<and> t0 + 10 - 0.075 \<le> fold max ws t0 \<and> fold max ws t0 \<le> t0 + 10"
  proof -
    from that cnt [of 19] have "19 < N" by (simp add: scheduleAheadTime_def)
    moreover from that cnt [of 21] have "\<not> 21 < N" by (simp add: scheduleAheadTime_def)
    ultimately show ?thesis by linarith
  qed
  show "\<exists>s' N. (case metroBtn_click t0 s of None \<Rightarrow> None
                       | Some s1 \<Rightarrow> run_wakes ws s1) = Some s'
                \<and> clicks s' = clicks s
                      @ map (\<lambda>k. t0 + 0.05 + real k * (60 / real_of_int b)) [0..<N]
                \<and> nextTick s' = Num (t0 + 0.05 + real N * (60 / real_of_int b))
                \<and> (\<forall>k. k < N \<longleftrightarrow>
                         t0 + 0.05 + real k * (60 / real_of_int b)
                           < fold max ws t0 + scheduleAheadTime)
                \<and> (b = 120 \<and> t0 + 10 - 0.075 \<le> fold max ws t0 \<and> fold max ws t0 \<le> t0 + 10
                     \<longrightarrow> N = 20 \<or> N = 21)"
    apply (rule exI [of _ s'], rule exI [of _ N])
    using click run t2 twenty cnt by (simp add: ticking_def)
qed

text \<open>The theorem at the initial state of the page: one wake, and a run of ten seconds
  with irregular wakes.\<close>

theorem metronome_clicks_evenly_spaced_witness:
  "(0::int) < 120
   \<and> runScheduler 0 ((initial_state Map.empty)\<lparr>isMetronomeOn := True\<rparr>) =
       Some ((initial_state Map.empty)\<lparr>isMetronomeOn := True, nextTick := Num (1 / 2),
               clicks := [0], schedulerTimers := 1\<rparr>)
   \<and> (\<exists>s'. (case metroBtn_click 0 (initial_state Map.empty) of None \<Rightarrow> None
              | Some s1 \<Rightarrow> run_wakes [0.025, 0.1, 9.93, 10] s1) = Some s'
          \<and> clicks s' = map (\<lambda>k. 0.05 + real k * (1 / 2)) [0..<21]
          \<and> length (clicks s') = 21)"
proof -
  let ?r = "(initial_state Map.empty)\<lparr>isMetronomeOn := True\<rparr>"
  let ?s = "initial_state Map.empty"
  note inst = metronome_clicks_evenly_spaced
    [where b = 120 and r = ?r and t = 0 and now = 0 and s = ?s and ?t0.0 = 0
       and ws = "[0.025, 0.1, 9.93, 10]"]
  have r: "isMetronomeOn ?r \<and> bpm ?r = Some 120 \<and> nextTick ?r = Num 0"
    by (simp add: initial_state_def)
  have s: "\<not> isMetronomeOn ?s \<and> bpm ?s = Some 120"
    by (simp add: initial_state_def)
  from inst r obtain n where
    1: "runScheduler 0 ?r =
          Some (?r\<lparr>nextTick := Num (0 + real n * (60 / real_of_int 120)),
                   clicks := clicks ?r @ map (\<lambda>k. 0 + real k * (60 / real_of_int 120)) [0..<n],
                   schedulerTimers := Suc (schedulerTimers ?r)\<rparr>)"
    and n: "\<And>k. k < n \<longleftrightarrow> 0 + real k * (60 / real_of_int 120) < 0 + scheduleAheadTime"
    by auto
  from n [of 0] n [of 1] have "n = 1" by (simp add: scheduleAheadTime_def)
  with 1 have A: "runScheduler 0 ?r =
       Some (?r\<lparr>nextTick := Num (1 / 2), clicks := [0], schedulerTimers := 1\<rparr>)"
    by (simp add: initial_state_def)
  from inst s obtain s' N where
    2: "(case metroBtn_click 0 ?s of None \<Rightarrow> None
         | Some s1 \<Rightarrow> run_wakes [0.025, 0.1, 9.93, 10] s1) = Some s'"
    and cl: "clicks s' = clicks ?s @ map (\<lambda>k. 0 + 0.05 + real k * (60 / real_of_int 120)) [0..<N]"
    and cnt: "\<And>k. k < N \<longleftrightarrow>
        0 + 0.05 + real k * (60 / real_of_int 120) < fold max [0.025, 0.1, 9.93, 10] 0 + scheduleAheadTime"
    by auto
  from cnt [of 20] cnt [of 21] have "N = 21" by (simp add: scheduleAheadTime_def)
  with cl have "clicks s' = map (\<lambda>k. 0.05 + real k * (1 / 2)) [0..<21]"
    by (simp add: initial_state_def)
  with A 2 show ?thesis by auto
qed

subsection \<open>C7: a stopped metronome schedules nothing more\<close>

lemma runScheduler_off:
  "\<not> isMetronomeOn s \<Longrightarrow> runScheduler now s = Some s"
  by (simp add: runScheduler_def)

lemma run_wakes_off:
  "\<not> isMetronomeOn s \<Longrightarrow>
   run_wakes ws s = Some (s\<lparr>schedulerTimers := schedulerTimers s - length ws\<rparr>)"
proof (induction ws arbitrary: s)
  case Nil
  then show ?case by simp
next
  case (Cons w ws)
  let ?s = "s\<lparr>schedulerTimers := schedulerTimers s - 1\<rparr>"
  have "scheduler_wake w s = Some ?s"
    using Cons.prems by (cases "schedulerTimers s = 0") (simp_all add: scheduler_wake_def runScheduler_off)
  moreover have "\<not> isMetronomeOn ?s" using Cons.prems by simp
  ultimately show ?case using Cons.IH [of ?s] by simp
qed

text \<open>
  Claim C7. When the metronome is running and \<^verbatim>\<open>metroBtn\<close> is clicked, it is switched
  off without touching the clicks already scheduled; from then on every pending timer
  that fires finds the flag off and returns: no click is added, none is removed, and no
  timer is armed again, so the pending timers only run out.
\<close>

theorem metronome_stop_is_final:
  assumes "isMetronomeOn s"
  shows "\<exists>s1. metroBtn_click now s = Some s1
           \<and> \<not> isMetronomeOn s1 \<and> clicks s1 = clicks s
           \<and> schedulerTimers s1 = schedulerTimers s
           \<and> (\<forall>ws. \<exists>s'. run_wakes ws s1 = Some s'
                  \<and> \<not> isMetronomeOn s' \<and> clicks s' = clicks s
                  \<and> schedulerTimers s' = schedulerTimers s - length ws)"
proof -
  let ?s0 = "if ctx s = None then initAudio_sync s else s"
  let ?s1 = "?s0\<lparr>isMetronomeOn := False\<rparr>"
  have 0: "isMetronomeOn ?s0" "clicks ?s0 = clicks s" "schedulerTimers ?s0 = schedulerTimers s"
    using assms by (simp_all add: initAudio_sync_def)
  then have click: "metroBtn_click now s = Some ?s1"
    by (simp add: metroBtn_click_def Let_def)
  have off: "\<not> isMetronomeOn ?s1" by simp
  show ?thesis
    apply (rule exI [of _ ?s1])
    using click 0 run_wakes_off [OF off] by simp
qed

text \<open>The theorem at a metronome stopped after five clicks, with one timer pending and
  two wakes after the stop.\<close>

theorem metronome_stop_is_final_witness:
  "\<exists>s1. metroBtn_click 3 ((initial_state Map.empty)
            \<lparr>isMetronomeOn := True, clicks := [1, 1.5, 2, 2.5, 3], nextTick := Num 3.5,
              schedulerTimers := 1\<rparr>) = Some s1
      \<and> \<not> isMetronomeOn s1 \<and> clicks s1 = [1, 1.5, 2, 2.5, 3]
      \<and> (\<exists>s'. run_wakes [3.02, 3.05] s1 = Some s'
             \<and> clicks s' = [1, 1.5, 2, 2.5, 3] \<and> schedulerTimers s' = 0)"
proof -
  let ?s = "(initial_state Map.empty)
            \<lparr>isMetronomeOn := True, clicks := [1, 1.5, 2, 2.5, 3], nextTick := Num 3.5,
              schedulerTimers := 1\<rparr>"
  have on: "isMetronomeOn ?s" by simp
  from metronome_stop_is_final [OF on, of 3] obtain s1 where
    1: "metroBtn_click 3 ?s = Some s1" "\<not> isMetronomeOn s1" "clicks s1 = clicks ?s"
    and 2: "\<And>ws. \<exists>s'. run_wakes ws s1 = Some s'
                  \<and> \<not> isMetronomeOn s' \<and> clicks s' = clicks ?s
                  \<and> schedulerTimers s' = schedulerTimers ?s - length ws"
    by blast
  from 2 [of "[3.02, 3.05]"] obtain s' where
    "run_wakes [3.02, 3.05] s1 = Some s'" "clicks s' = clicks ?s"
    "schedulerTimers s' = schedulerTimers ?s - length [3.02, 3.05 :: real]"
    by blast
  with 1 show ?thesis by simp
qed

subsection \<open>C6: a tempo change touches no scheduled click\<close>

text \<open>
  Claim C6. The input handler of the tempo slider changes \<open>bpm\<close> only: the clicks
  already scheduled keep their times, and so does the next tick \<open>t\<close> already computed.
  Every later run of the scheduler appends to the clicks scheduled before the change,
  which stay as they are: after any wakes \<open>ws\<close> the clicks added are exactly the ticks
  \<open>t + k * 60 / bpm\<close> at the new tempo that lie below the latest window
  \<open>max t (w + scheduleAheadTime)\<close>, so the first new click is at \<open>t\<close>, the beat boundary
  computed before the change, and every increment of the next tick from there on is the
  new \<open>60 / bpm\<close>.
\<close>

theorem tempo_change_from_next_beat:
  fixes b' :: int
  assumes "0 < b'" and "parseInt v = Some b'"
    and "isMetronomeOn s" and "0 < schedulerTimers s" and "nextTick s = Num t"
  shows "clicks (tempo_input v s) = clicks s
       \<and> nextTick (tempo_input v s) = nextTick s
       \<and> bpm (tempo_input v s) = Some b'
       \<and> (\<forall>ws. \<exists>s' N. run_wakes ws (tempo_input v s) = Some s'
              \<and> clicks s' = clicks s
                   @ map (\<lambda>k. t + real k * (60 / real_of_int b')) [0..<N]
              \<and> nextTick s' = Num (t + real N * (60 / real_of_int b'))
              \<and> (\<forall>k. k < N \<longleftrightarrow>
                       t + real k * (60 / real_of_int b')
                         < fold max ws (t - scheduleAheadTime) + scheduleAheadTime))"
proof -
  let ?s = "tempo_input v s"
  have "0 \<le> real k * (60 / real_of_int b')" for k
    using assms(1) by simp
  then have "\<not> t + real k * (60 / real_of_int b') < t" for k
    by (simp add: not_less del: times_divide_eq_right)
  then have t0: "ticking b' (clicks s) t (t - scheduleAheadTime + scheduleAheadTime) 0 ?s"
    using assms by (simp add: ticking_def tempo_input_def del: times_divide_eq_right)
  have "\<exists>s' N. run_wakes ws ?s = Some s'
              \<and> clicks s' = clicks s @ map (\<lambda>k. t + real k * (60 / real_of_int b')) [0..<N]
              \<and> nextTick s' = Num (t + real N * (60 / real_of_int b'))
              \<and> (\<forall>k. k < N \<longleftrightarrow>
                       t + real k * (60 / real_of_int b')
                         < fold max ws (t - scheduleAheadTime) + scheduleAheadTime)" for ws
    using run_wakes_ticking [OF assms(1) t0, of ws] unfolding ticking_def by blast
  then show ?thesis using assms by (simp add: tempo_input_def)
qed

text \<open>The theorem at a change from 120 to 90 beats per minute between two wakes: the
  clicks at 1 and 1.5 stay, the next one is at 2 as computed before, and the one after
  it follows two thirds of a second later.\<close>

theorem tempo_change_from_next_beat_witness:
  "parseInt ''90'' = Some 90
   \<and> clicks (tempo_input ''90'' ((initial_state Map.empty)
        \<lparr>isMetronomeOn := True, clicks := [1, 1.5], nextTick := Num 2, schedulerTimers := 1\<rparr>))
       = [1, 1.5]
   \<and> (\<exists>s'. run_wakes [1.9, 2.6]
          (tempo_input ''90'' ((initial_state Map.empty)
             \<lparr>isMetronomeOn := True, clicks := [1, 1.5], nextTick := Num 2,
               schedulerTimers := 1\<rparr>)) = Some s'
        \<and> clicks s' = [1, 1.5, 2, 2 + 2 / 3]
        \<and> nextTick s' = Num (2 + 4 / 3))"
proof -
  let ?s = "(initial_state Map.empty)
        \<lparr>isMetronomeOn := True, clicks := [1, 1.5], nextTick := Num 2, schedulerTimers := 1\<rparr>"
  have p: "parseInt ''90'' = Some 90"
    by (simp add: parseInt_def is_space_def is_digit_def digits_value_def digit_value_def)
  have s: "isMetronomeOn ?s" "0 < schedulerTimers ?s" "nextTick ?s = Num 2"
    by simp_all
  have pos: "(0::int) < 90" by simp
  note inst = tempo_change_from_next_beat [of 90 "''90''" ?s 2, OF pos p s]
  from inst have 1: "clicks (tempo_input ''90'' ?s) = clicks ?s"
    by (rule conjunct1)
  from inst have 2: "\<exists>s' N. run_wakes ws (tempo_input ''90'' ?s) = Some s'
              \<and> clicks s' = clicks ?s
                   @ map (\<lambda>k. 2 + real k * (60 / real_of_int 90)) [0..<N]
              \<and> nextTick s' = Num (2 + real N * (60 / real_of_int 90))
              \<and> (\<forall>k. k < N \<longleftrightarrow>
                       2 + real k * (60 / real_of_int 90)
                         < fold max ws (2 - scheduleAheadTime) + scheduleAheadTime)" for ws
    by blast
  from 2 [of "[1.9, 2.6]"] obtain s' N where
    run: "run_wakes [1.9, 2.6] (tempo_input ''90'' ?s) = Some s'"
    and cl: "clicks s' = clicks ?s @ map (\<lambda>k. 2 + real k * (60 / real_of_int 90)) [0..<N]"
    and nt: "nextTick s' = Num (2 + real N * (60 / real_of_int 90))"
    and cnt: "\<And>k. k < N \<longleftrightarrow>
                       2 + real k * (60 / real_of_int 90)
                         < fold max [1.9, 2.6] (2 - scheduleAheadTime) + scheduleAheadTime"
    by blast
  from cnt [of 1] cnt [of 2] have N: "N = 2" by (simp add: scheduleAheadTime_def)
  have "clicks s' = [1, 1.5, 2, 2 + 2 / 3]" "nextTick s' = Num (2 + 4 / 3)"
    using cl nt unfolding N by (simp_all add: numeral_2_eq_2)
  with run have "\<exists>s'. run_wakes [1.9, 2.6] (tempo_input ''90'' ?s) = Some s'
        \<and> clicks s' = [1, 1.5, 2, 2 + 2 / 3] \<and> nextTick s' = Num (2 + 4 / 3)"
    by blast
  with 1 p show ?thesis by (simp del: run_wakes.simps)
qed

subsection \<open>C8: the 60 second cap stops the recorder\<close>










subsection \<open>C10: out-of-state calls of the recorder\<close>

text \<open>
  Claim C10. \<^verbatim>\<open>startRecording\<close> called while a recording is on returns at its first
  line, and so does \<^verbatim>\<open>stopRecording\<close> called while none is on: the whole state (the
  flag, the recorder, the chunks and everything else) is as before, and nothing is
  thrown.
\<close>

theorem recorder_out_of_state_calls_are_noops:
  "(recording s \<longrightarrow> startRecording now mime d s = Inr s)
   \<and> (\<not> recording s \<longrightarrow> stopRecording d s = Inr s)"
  by (simp add: startRecording_def stopRecording_def)

text \<open>The theorem at a recorder that is recording, and at the idle recorder of a fresh page.\<close>

theorem recorder_out_of_state_calls_are_noops_witness:
  "startRecording 5 ''audio/webm'' \<lparr>bsize = 0, btype = ''''\<rparr>
      ((initial_state Map.empty)
         \<lparr>recording := True, chunks := [\<lparr>bsize = 7, btype = ''audio/webm''\<rparr>],
           recorder := Some \<lparr>rstate = rec_recording, mimeType = ''audio/webm''\<rparr>\<rparr>)
     = Inr ((initial_state Map.empty)
         \<lparr>recording := True, chunks := [\<lparr>bsize = 7, btype = ''audio/webm''\<rparr>],
           recorder := Some \<lparr>rstate = rec_recording, mimeType = ''audio/webm''\<rparr>\<rparr>)
   \<and> stopRecording \<lparr>bsize = 0, btype = ''''\<rparr> (initial_state Map.empty)
     = Inr (initial_state Map.empty)"
proof -
  let ?s = "(initial_state Map.empty)
         \<lparr>recording := True, chunks := [\<lparr>bsize = 7, btype = ''audio/webm''\<rparr>],
           recorder := Some \<lparr>rstate = rec_recording, mimeType = ''audio/webm''\<rparr>\<rparr>"
  have 1: "recording ?s" by simp
  have 2: "\<not> recording (initial_state Map.empty)" by (simp add: initial_state_def)
  from recorder_out_of_state_calls_are_noops [of ?s 5 "''audio/webm''" "\<lparr>bsize = 0, btype = ''''\<rparr>"] 1
  have A: "startRecording 5 ''audio/webm'' \<lparr>bsize = 0, btype = ''''\<rparr> ?s = Inr ?s" by blast
  from recorder_out_of_state_calls_are_noops [of "initial_state Map.empty" 5 "''audio/webm''" "\<lparr>bsize = 0, btype = ''''\<rparr>"] 2
  have B: "stopRecording \<lparr>bsize = 0, btype = ''''\<rparr> (initial_state Map.empty)
     = Inr (initial_state Map.empty)" by blast
  from A B show ?thesis by blast
qed

subsection \<open>C2: a trigger before the kit is ready\<close>

text \<open>Without an audio context, and with a kit that lacks the pad, \<^verbatim>\<open>playPad\<close> returns
  with the state unchanged.\<close>

lemma playPad_without_context:
  "ctx s = None \<Longrightarrow> playPad now id' velocity s = Inr s"
  by (simp add: playPad_def)

lemma playPad_without_buffer:
  "buffers s (kit s) = Some kit' \<Longrightarrow> kit' id' = None \<Longrightarrow> playPad now id' velocity s = Inr s"
  by (simp add: playPad_def)

text \<open>
  Claim C2 says that \<^verbatim>\<open>playPad\<close> is a silent no-op also when the context exists and
  the kit's buffers have not been synthesized yet. That is the state \<^verbatim>\<open>initAudio\<close>
  leaves at its first \<^verbatim>\<open>await\<close>, and for good when it throws after creating the
  context: \<^verbatim>\<open>state.ctx\<close> is set and \<^verbatim>\<open>state.buffers\<close> is still empty. There
  \<^verbatim>\<open>state.buffers[state.kit]\<close> is undefined and \<^verbatim>\<open>kit[id]\<close> throws a \<^verbatim>\<open>TypeError\<close>, for
  every pad, velocity and time: the guard \<^verbatim>\<open>if (!buf) return\<close> comes one line too late.
\<close>

theorem playPad_throws_before_kits_are_ready:
  "playPad now id' velocity (initAudio_sync (initial_state store)) = Inl TypeError"
  by (simp add: playPad_def initAudio_sync_def initial_state_def)

subsection \<open>C9: the persisted latency offset\<close>

text \<open>\<^verbatim>\<open>parseInt\<close> reads back what \<^verbatim>\<open>String\<close> writes for an integer below \<open>10^21\<close>
  in magnitude, so such a saved latency is loaded unchanged; an absent setting loads
  as 0.\<close>

lemma of_char_char_of_small: "n < 256 \<Longrightarrow> (of_char (char_of n) :: nat) = n"
  by simp

lemma is_digit_char_of: "k < 10 \<Longrightarrow> is_digit (char_of (48 + k :: nat))"
  by (simp add: is_digit_def)

lemma digit_value_char_of: "k < 10 \<Longrightarrow> digit_value (char_of (48 + k :: nat)) = k"
  by (simp add: digit_value_def)

lemma digits_of_digits: "c \<in> set (digits_of n) \<Longrightarrow> is_digit c"
proof (induction n rule: digits_of.induct)
  case (1 n)
  show ?case
  proof (cases "n < 10")
    case True
    with "1.prems" show ?thesis
      by (subst (asm) digits_of.simps) (simp add: is_digit_char_of)
  next
    case False
    with "1.prems" "1.IH" show ?thesis
      by (subst (asm) digits_of.simps) (auto simp: is_digit_char_of)
  qed
qed

lemma digits_of_nonempty: "digits_of n \<noteq> []"
  by (subst digits_of.simps) simp

lemma digits_value_snoc:
  "digits_value (z @ [c]) = 10 * digits_value z + digit_value c"
  by (simp add: digits_value_def)

lemma digits_value_digits_of: "digits_value (digits_of n) = n"
proof (induction n rule: digits_of.induct)
  case (1 n)
  show ?case
  proof (cases "n < 10")
    case True
    then show ?thesis
      by (subst digits_of.simps) (simp add: digits_value_def digit_value_char_of)
  next
    case False
    with "1.IH" show ?thesis
      by (subst digits_of.simps) (simp add: digits_value_snoc digit_value_char_of)
  qed
qed

lemma is_digit_not_space_or_sign:
  "is_digit c \<Longrightarrow> \<not> is_space c \<and> c \<noteq> CHR ''-'' \<and> c \<noteq> CHR ''+''"
  by (auto simp: is_digit_def is_space_def)

lemma parseInt_digits_of: "parseInt (digits_of n) = Some (int n)"
proof -
  obtain c r where cr: "digits_of n = c # r"
    using digits_of_nonempty [of n] by (cases "digits_of n") auto
  then have "is_digit c" using digits_of_digits [of c n] by simp
  then have c: "\<not> is_space c" "c \<noteq> CHR ''-''" "c \<noteq> CHR ''+''"
    using is_digit_not_space_or_sign by blast+
  have all: "takeWhile is_digit (digits_of n) = digits_of n"
    using digits_of_digits by (simp add: takeWhile_eq_all_conv)
  have "dropWhile is_space (digits_of n) = digits_of n"
    using c cr by simp
  then have dw: "dropWhile is_space (digits_of n) = digits_of n" .
  have S': "(case digits_of n of c # r \<Rightarrow> if c = CHR ''-'' \<or> c = CHR ''+'' then r else digits_of n
             | [] \<Rightarrow> []) = digits_of n"
    using cr c by simp
  have sign: "(case digits_of n of c # _ \<Rightarrow> if c = CHR ''-'' then - 1 else 1 | [] \<Rightarrow> (1::int)) = 1"
    using cr c by simp
  show ?thesis
    unfolding parseInt_def Let_def dw S' sign all
    by (simp add: digits_of_nonempty digits_value_digits_of)
qed

lemma digits_of_length: "0 < k \<Longrightarrow> n < 10 ^ k \<Longrightarrow> length (digits_of n) \<le> k"
proof (induction n arbitrary: k rule: digits_of.induct)
  case (1 n)
  show ?case
  proof (cases "n < 10")
    case True
    with "1.prems" show ?thesis by (subst digits_of.simps) simp
  next
    case False
    with "1.prems" obtain j where k: "k = Suc j" by (cases k) auto
    from False "1.prems" k have "0 < j" by (cases j) auto
    moreover from "1.prems" k have "n div 10 < 10 ^ j"
      by (simp add: div_less_iff_less_mult mult.commute)
    ultimately have "length (digits_of (n div 10)) \<le> j"
      using "1.IH" False by simp
    with False k show ?thesis by (subst digits_of.simps) simp
  qed
qed

lemma String_short:
  assumes "\<bar>n\<bar> < 10 ^ 21"
  shows "String n = (if n < 0 then CHR ''-'' # digits_of (nat (- n)) else digits_of (nat n))"
proof -
  have "nat \<bar>n\<bar> < 10 ^ 21" using assms by (simp add: nat_less_iff)
  then have "length (digits_of (nat \<bar>n\<bar>)) \<le> 21"
    by (intro digits_of_length) simp_all
  then show ?thesis by (simp add: String_def Let_def abs_if)
qed

lemma parseInt_String:
  assumes "\<bar>n\<bar> < 10 ^ 21"
  shows "parseInt (String n) = Some n"
proof (cases "n < 0")
  case False
  then show ?thesis by (simp add: String_short [OF assms] parseInt_digits_of)
next
  case True
  have all: "takeWhile is_digit (digits_of m) = digits_of m" for m
    using digits_of_digits by (simp add: takeWhile_eq_all_conv)
  have "\<not> is_space CHR ''-''" by (simp add: is_space_def)
  with True show ?thesis
    by (simp add: String_short [OF assms] parseInt_def all digits_of_nonempty
        digits_value_digits_of)
qed

lemma String_nonempty:
  assumes "\<bar>n\<bar> < 10 ^ 21"
  shows "String n \<noteq> []"
  by (simp add: String_short [OF assms] digits_of_nonempty)

text \<open>From \<open>10^21\<close> on the exponent notation is not read back.\<close>

lemma parseInt_String_large: "parseInt (String (10 ^ 21)) = Some 1"
proof -
  have "digits_of (10 ^ 21) = ''1000000000000000000000''"
    by (simp add: digits_of.simps char_of_eq_iff)
  then show ?thesis
    by (simp add: String_def strip_zeros_def Let_def parseInt_def is_space_def is_digit_def
        digits_value_def digit_value_def)
qed

lemma latency_round_trip:
  assumes "\<bar>or_zero (parseInt v)\<bar> < 10 ^ 21"
  shows "load_latencyMs (localStorage (saveLatency_click v s)) = latencyMs (saveLatency_click v s)"
    and "latencyMs (saveLatency_click v s) = Some (or_zero (parseInt v))"
  using assms
  by (simp_all add: load_latencyMs_def saveLatency_click_def Let_def String_nonempty
      parseInt_String)


text \<open>
  Claim C9 says that the latency offset on load is 0 also when the stored string is not
  a valid integer. The click handler of the save button computes
  \<^verbatim>\<open>parseInt(latencyEl.value,10)||0\<close>, which is 0 for such a string; the initialiser
  of \<^verbatim>\<open>state.latencyMs\<close> lacks the \<^verbatim>\<open>||0\<close>, so a stored \<^verbatim>\<open>"abc"\<close> is loaded as
  \<^verbatim>\<open>NaN\<close>.
\<close>

theorem load_latencyMs_invalid_is_NaN:
  "load_latencyMs [''latencyMs'' \<mapsto> ''abc''] = None
   \<and> or_zero (parseInt ''abc'') = 0"
  by (simp add: load_latencyMs_def parseInt_def or_zero_def is_space_def is_digit_def)

subsection \<open>C5: the soft-clip table\<close>

lemma curve_nth:
  "i < 1024 \<Longrightarrow>
   makeSoftClipCurve amount ! i =
     tanh (amount * 2 * (real i / 1023 * 2 - 1)) / tanh (amount * 2)"
  by (simp add: makeSoftClipCurve_def Let_def del: upt_Suc)

lemma curve_length: "length (makeSoftClipCurve amount) = 1024"
  by (simp add: makeSoftClipCurve_def)

lemma curve_mono:
  assumes "0 < amount" "i \<le> j" "j < 1024"
  shows "makeSoftClipCurve amount ! i \<le> makeSoftClipCurve amount ! j"
proof -
  have "real i / 1023 * 2 - 1 \<le> real j / 1023 * 2 - 1"
    using assms by simp
  then have "amount * 2 * (real i / 1023 * 2 - 1) \<le> amount * 2 * (real j / 1023 * 2 - 1)"
    using assms(1) by (intro mult_left_mono) simp_all
  then have "tanh (amount * 2 * (real i / 1023 * 2 - 1))
               \<le> tanh (amount * 2 * (real j / 1023 * 2 - 1))"
    by simp
  moreover have "0 < tanh (amount * 2)" using assms(1) by simp
  ultimately show ?thesis
    using assms by (simp add: curve_nth divide_right_mono)
qed

lemma curve_antisymmetric:
  assumes "i < 1024"
  shows "makeSoftClipCurve amount ! (1023 - i) = - makeSoftClipCurve amount ! i"
proof -
  have "real (1023 - i) = 1023 - real i"
    using assms by (simp add: of_nat_diff)
  then have "amount * 2 * (real (1023 - i) / 1023 * 2 - 1)
          = - (amount * 2 * (real i / 1023 * 2 - 1))"
    by (simp add: field_simps)
  then have "tanh (amount * 2 * (real (1023 - i) / 1023 * 2 - 1))
               = tanh (- (amount * 2 * (real i / 1023 * 2 - 1)))"
    by (simp only:)
  also have "\<dots> = - tanh (amount * 2 * (real i / 1023 * 2 - 1))"
    by (rule tanh_minus)
  finally have "tanh (amount * 2 * (real (1023 - i) / 1023 * 2 - 1)) / tanh (amount * 2)
              = - (tanh (amount * 2 * (real i / 1023 * 2 - 1)) / tanh (amount * 2))"
    by (simp only: minus_divide_left)
  moreover have "1023 - i < 1024" by simp
  ultimately show ?thesis
    using assms by (simp only: curve_nth)
qed

text \<open>
  Claim C5. For a positive drive \<open>amount\<close> (the code passes 0.9) the table has 1024
  entries; entry \<open>i\<close> is \<open>tanh (amount * 2 * x) / tanh (amount * 2)\<close> at
  \<open>x = i / 1023 * 2 - 1\<close>, a point of \<open>[-1, 1]\<close>; the entries are non-decreasing; the
  last entry, read at \<open>x = 1\<close>, is 1 and the first, read at \<open>x = -1\<close>, is \<open>-1\<close>; the
  sampled function is 0 at \<open>x = 0\<close>, and so is the table read there (\<open>x = 0\<close> lies
  half-way between entries 511 and 512, which are opposite). Over the reals these
  values are exact; the rounding to 32-bit floats is not modelled.
\<close>

theorem soft_clip_curve_shape:
  assumes pos: "0 < amount"
  shows "length (makeSoftClipCurve amount) = 1024
       \<and> (\<forall>i<1024. makeSoftClipCurve amount ! i
              = tanh (amount * 2 * (real i / 1023 * 2 - 1)) / tanh (amount * 2)
            \<and> - 1 \<le> real i / 1023 * 2 - 1 \<and> real i / 1023 * 2 - 1 \<le> 1)
       \<and> (\<forall>i j. i \<le> j \<and> j < 1024 \<longrightarrow>
              makeSoftClipCurve amount ! i \<le> makeSoftClipCurve amount ! j)
       \<and> makeSoftClipCurve amount ! 1023 = 1 \<and> curve_at (makeSoftClipCurve amount) 1 = 1
       \<and> makeSoftClipCurve amount ! 0 = - 1 \<and> curve_at (makeSoftClipCurve amount) (- 1) = - 1
       \<and> tanh (amount * 2 * 0) / tanh (amount * 2) = 0
       \<and> curve_at (makeSoftClipCurve amount) 0 = 0"
proof -
  have nz: "tanh (amount * 2) \<noteq> 0" using pos by simp
  have top: "makeSoftClipCurve amount ! 1023 = 1"
    using nz by (simp add: curve_nth)
  have bot: "makeSoftClipCurve amount ! 0 = - 1"
    using nz by (simp add: curve_nth)
  have mid: "makeSoftClipCurve amount ! 512 = - makeSoftClipCurve amount ! 511"
    using curve_antisymmetric [of 511 amount] by simp
  have at1: "curve_at (makeSoftClipCurve amount) 1 = 1"
    using top by (simp add: curve_at_def curve_length)
  have atm1: "curve_at (makeSoftClipCurve amount) (- 1) = - 1"
    using bot by (simp add: curve_at_def curve_length)
  have fl: "\<lfloor>1023 / 2 :: real\<rfloor> = 511" by linarith
  have at0: "curve_at (makeSoftClipCurve amount) 0 = 0"
    using mid by (simp add: curve_at_def curve_length Let_def fl)
  have range: "- 1 \<le> real i / 1023 * 2 - 1 \<and> real i / 1023 * 2 - 1 \<le> 1" if "i < 1024" for i
    using that by simp
  show ?thesis
    using curve_length curve_nth range curve_mono [OF pos] top bot at1 atm1 at0
    by simp
qed

text \<open>The theorem at the drive 0.9 the code builds the table with.\<close>

theorem soft_clip_curve_shape_witness:
  "(0 :: real) < 0.9
   \<and> length (makeSoftClipCurve 0.9) = 1024
   \<and> makeSoftClipCurve 0.9 ! 100 \<le> makeSoftClipCurve 0.9 ! 900
   \<and> makeSoftClipCurve 0.9 ! 1023 = 1 \<and> makeSoftClipCurve 0.9 ! 0 = - 1
   \<and> curve_at (makeSoftClipCurve 0.9) 0 = 0"
proof -
  have a: "(0::real) < 0.9" by simp
  note inst = soft_clip_curve_shape [OF a]
  from inst have "makeSoftClipCurve 0.9 ! 100 \<le> makeSoftClipCurve 0.9 ! 900"
    by (elim conjE allE [of _ 100] allE [of _ 900]) simp
  with inst show ?thesis by simp
qed

subsection \<open>C3: the hi-hat choke\<close>













subsection \<open>C4: buffer lengths and sample bounds\<close>

text \<open>The smoothing pass adds \<open>dcE x i\<close> to sample \<open>i\<close>; the offset is a weighted mean of
  the negated earlier samples.\<close>

lemma dc_filter_map_upt:
  "0.995 * yprev - prev = dcE x i \<Longrightarrow>
   dc_filter prev yprev (map x [i..<n]) = map (\<lambda>k. x k + dcE x k) [i..<n]"
proof (induction "n - i" arbitrary: i prev yprev)
  case 0
  then show ?case by simp
next
  case (Suc m)
  then have lt: "i < n" and m: "m = n - Suc i" by simp_all
  have next': "0.995 * (x i + dcE x i) - x i = dcE x (Suc i)" by (simp add: field_simps)
  have y: "x i - prev + 0.995 * yprev = x i + dcE x i"
    using Suc.prems by linarith
  have "dc_filter prev yprev (map x [i..<n])
      = (x i + dcE x i) # dc_filter (x i) (x i + dcE x i) (map x [Suc i..<n])"
    by (subst upt_conv_Cons [OF lt]) (simp only: list.map dc_filter.simps Let_def y)
  also have "\<dots> = (x i + dcE x i) # map (\<lambda>k. x k + dcE x k) [Suc i..<n]"
    by (simp only: Suc.hyps(1) [OF m next'])
  also have "\<dots> = map (\<lambda>k. x k + dcE x k) [i..<n]"
    using lt by (simp add: upt_conv_Cons)
  finally show ?case .
qed

lemma dc_filter_map:
  "dc_filter 0 0 (map x [0..<n]) = map (\<lambda>k. x k + dcE x k) [0..<n]"
  by (rule dc_filter_map_upt) simp


lemma dc_filter_nth:
  "dc_filter 0 0 xs = map (\<lambda>k. xs ! k + dcE (\<lambda>k. xs ! k) k) [0..<length xs]"
proof -
  have "dc_filter 0 0 (map (\<lambda>k. xs ! k) [0..<length xs])
      = map (\<lambda>k. xs ! k + dcE (\<lambda>k. xs ! k) k) [0..<length xs]"
    by (rule dc_filter_map)
  then show ?thesis by (simp add: map_nth)
qed

lemma dcE_cong: "(\<And>k. k < i \<Longrightarrow> x k = z k) \<Longrightarrow> dcE x i = dcE z i"
  by (induction i) simp_all


lemma dcE_bounds:
  assumes "lo \<le> 0" "0 \<le> hi" "\<And>k. k < i \<Longrightarrow> lo \<le> x k \<and> x k \<le> hi"
  shows "- hi \<le> dcE x i \<and> dcE x i \<le> - lo"
  using assms(3)
proof (induction i)
  case 0
  then show ?case using assms(1,2) by simp
next
  case (Suc i)
  then have IH: "- hi \<le> dcE x i" "dcE x i \<le> - lo" and x: "lo \<le> x i" "x i \<le> hi"
    by simp_all
  then show ?case by simp
qed

lemma dcE_mono:
  assumes "\<And>k. k < i \<Longrightarrow> x k \<le> z k"
  shows "dcE z i \<le> dcE x i"
  using assms
proof (induction i)
  case 0
  then show ?case by simp
next
  case (Suc i)
  then have "dcE z i \<le> dcE x i" "x i \<le> z i" by simp_all
  then show ?case by simp
qed

lemma dcE_constant:
  assumes "\<And>k. s \<le> k \<Longrightarrow> k < s + m \<Longrightarrow> z k = c"
  shows "dcE z (s + m) = 0.995 ^ m * dcE z s - c * (1 - 0.995 ^ m)"
  using assms by (induction m) (simp_all add: algebra_simps)

lemma dc_filter_bounds:
  assumes "lo \<le> 0" "0 \<le> hi" "\<And>k. k < n \<Longrightarrow> lo \<le> x k \<and> x k \<le> hi"
    and "y \<in> set (dc_filter 0 0 (map x [0..<n]))"
  shows "lo - hi \<le> y \<and> y \<le> hi - lo"
proof -
  from assms(4) obtain k where k: "k < n" and y: "y = x k + dcE x k"
    by (auto simp: dc_filter_map)
  have "- hi \<le> dcE x k \<and> dcE x k \<le> - lo"
    using assms(1-3) k by (intro dcE_bounds) simp_all
  with assms(3) [OF k] y show ?thesis by simp
qed

lemma decay_unit: "0 \<le> u \<Longrightarrow> 0 < exp (- u) \<and> exp (- u) \<le> (1::real)"
  by simp

lemma abs_times_decay:
  assumes "\<bar>a\<bar> \<le> A" "0 \<le> e" "e \<le> (1::real)"
  shows "\<bar>a * e\<bar> \<le> A"
proof -
  have "\<bar>a * e\<bar> = \<bar>a\<bar> * e" using assms(2) by (simp add: abs_mult)
  also have "\<dots> \<le> A * 1"
    using assms by (intro mult_mono) (auto intro: order_trans [OF abs_ge_zero])
  finally show ?thesis by simp
qed

lemma noise_range: "0 \<le> r \<Longrightarrow> r < 1 \<Longrightarrow> \<bar>r * 2 - 1\<bar> \<le> (1::real)"
  by (simp add: abs_le_iff)


lemma render_bounds:
  assumes "lo \<le> 0" "0 \<le> hi"
    and "\<And>k. lo \<le> f sr k \<and> f sr k \<le> hi"
    and "y \<in> set (renderToBuffer sr seconds (\<lambda>len sr. map (f sr) [0..<len]))"
  shows "lo - hi \<le> y \<and> y \<le> hi - lo"
  using assms(4) unfolding renderToBuffer_def
  by (intro dc_filter_bounds [OF assms(1,2), of _ "f sr"]) (use assms(3) in auto)



lemma render_abs_bound:
  assumes "\<And>k. \<bar>f sr k\<bar> \<le> A"
    and "y \<in> set (renderToBuffer sr seconds (\<lambda>len sr. map (f sr) [0..<len]))"
  shows "\<bar>y\<bar> \<le> 2 * A"
proof -
  have A: "0 \<le> A" using assms(1) [of 0] by linarith
  have "- A - A \<le> y \<and> y \<le> A - (- A)"
  proof (rule render_bounds [OF _ _ _ assms(2)])
    show "- A \<le> f sr k \<and> f sr k \<le> A" for k
      using assms(1) [of k] by (simp add: abs_le_iff)
  qed (use A in simp_all)
  then show ?thesis by (simp add: abs_le_iff)
qed


lemma abs_times_level:
  assumes "\<bar>a\<bar> \<le> 1" "0 \<le> n" "n \<le> (N::real)"
  shows "\<bar>a * n\<bar> \<le> N"
proof -
  have "\<bar>a * n\<bar> = \<bar>a\<bar> * n" using assms(2) by (simp add: abs_mult)
  also have "\<dots> \<le> 1 * N" using assms by (intro mult_mono) simp_all
  finally show ?thesis by simp
qed

lemma abs_add_le:
  fixes a b :: real
  assumes "\<bar>a\<bar> \<le> A" "\<bar>b\<bar> \<le> B"
  shows "\<bar>a + b\<bar> \<le> A + B"
  using assms abs_triangle_ineq [of a b] by linarith





lemma snare_sample:
  assumes "0 < sr" "0 \<le> r" "r < 1" "0 \<le> n" "n \<le> 0.9"
  shows "\<bar>(r * 2 - 1) * exp (- (real i / sr) * 8) * n
           + sin a * exp (- (real i / sr) * 12) * 0.8\<bar> \<le> 1.7"
proof -
  have t: "0 \<le> real i / sr * 8" "0 \<le> real i / sr * 12" using assms by simp_all
  have "\<bar>(r * 2 - 1) * exp (- (real i / sr * 8))\<bar> \<le> 1"
    using assms t by (intro abs_times_decay noise_range) simp_all
  then have 1: "\<bar>(r * 2 - 1) * exp (- (real i / sr * 8)) * n\<bar> \<le> 0.9"
    using assms(4,5) by (rule abs_times_level)
  have "\<bar>sin a * exp (- (real i / sr * 12))\<bar> \<le> 1"
    using t by (intro abs_times_decay) simp_all
  then have 2: "\<bar>sin a * exp (- (real i / sr * 12)) * 0.8\<bar> \<le> 0.8"
    by (simp add: abs_mult)
  from abs_add_le [OF 1 2] show ?thesis by simp
qed


lemma synthSnare_bounds:
  assumes "0 < sr" "\<And>i. 0 \<le> rnd i \<and> rnd i < 1" "y \<in> set (synthSnare sr flavor rnd)"
  shows "\<bar>y\<bar> \<le> 3.4"
proof -
  have "\<bar>y\<bar> \<le> 2 * 1.7"
    using assms(3) unfolding synthSnare_def Let_def
    by (rule render_abs_bound [rotated]) (rule snare_sample, use assms in simp_all)
  then show ?thesis by simp
qed








lemma one_pole_bounds:
  assumes "0 \<le> alpha" "alpha \<le> 1"
  shows "lo \<le> p \<Longrightarrow> p \<le> hi \<Longrightarrow> \<forall>n\<in>set ns. lo \<le> n \<and> n \<le> hi \<Longrightarrow>
         \<forall>x\<in>set (one_pole alpha p ns). lo \<le> x \<and> x \<le> hi"
proof (induction ns arbitrary: p)
  case Nil
  then show ?case by simp
next
  case (Cons n ns)
  let ?y = "p * alpha + (1 - alpha) * n"
  have n: "lo \<le> n" "n \<le> hi" using Cons.prems by simp_all
  have "alpha * p + (1 - alpha) * n \<le> hi"
    using Cons.prems(2) n assms by (intro convex_bound_le) simp_all
  moreover have "alpha * (- p) + (1 - alpha) * (- n) \<le> - lo"
    using Cons.prems(1) n assms by (intro convex_bound_le) simp_all
  ultimately have y: "lo \<le> ?y" "?y \<le> hi" by (simp_all add: algebra_simps)
  from Cons.IH [OF y] Cons.prems(3) y show ?case by (simp add: Let_def)
qed

lemma dc_filter_list_bounds:
  assumes "lo \<le> 0" "0 \<le> hi" "\<forall>x\<in>set xs. lo \<le> x \<and> x \<le> hi"
    and "y \<in> set (dc_filter 0 0 xs)"
  shows "lo - hi \<le> y \<and> y \<le> hi - lo"
proof (rule dc_filter_bounds [OF assms(1,2), of "length xs" "\<lambda>k. xs ! k"])
  show "lo \<le> xs ! k \<and> xs ! k \<le> hi" if "k < length xs" for k
    using assms(3) that by simp
  show "y \<in> set (dc_filter 0 0 (map ((!) xs) [0..<length xs]))"
    using assms(4) by (simp add: map_nth)
qed

lemma scale_in_range:
  fixes a e :: real
  assumes "lo \<le> 0" "0 \<le> hi" "lo \<le> a" "a \<le> hi" "0 \<le> e" "e \<le> 1"
  shows "lo \<le> a * e \<and> a * e \<le> hi"
proof (cases "0 \<le> a")
  case True
  then have "a * e \<le> a * 1" using assms(5,6) by (intro mult_left_mono)
  moreover have "0 \<le> a * e" using True assms(5) by simp
  ultimately show ?thesis using assms by simp
next
  case False
  then have "a * 1 \<le> a * e" using assms(5,6) by (intro mult_left_mono_neg) simp_all
  moreover have "a * e \<le> 0" using False assms(5) by (simp add: mult_nonpos_nonneg)
  ultimately show ?thesis using assms by simp
qed


lemma synthHat_bounds:
  assumes sr: "0 < sr" and rnd: "\<And>i. 0 \<le> rnd i \<and> rnd i < 1"
    and y: "y \<in> set (synthHat sr type flavor rnd)"
  shows "\<bar>y\<bar> \<le> 2.2"
proof -
  have "- 1 - 1.2 \<le> y \<and> y \<le> 1.2 - (- 1)"
    using y unfolding synthHat_def renderToBuffer_def Let_def
  proof (rule dc_filter_list_bounds [rotated -1])
    let ?alpha = "exp (- 2 * pi * (if flavor = ''rock'' then 9000 else 7000) / sr)"
    have "0 \<le> 2 * pi * (if flavor = ''rock'' then 9000 else 7000) / sr"
      using sr by simp
    then have "exp (- (2 * pi * (if flavor = ''rock'' then 9000 else 7000) / sr)) \<le> 1"
      by (simp only: decay_unit)
    then have alpha: "0 \<le> ?alpha" "?alpha \<le> 1" by simp_all
    show "\<forall>x\<in>set (one_pole ?alpha 0
              (map (\<lambda>i. ((if xor (xor (Math_sign (sin (2 * pi * 215 * (real i / sr))))
                                      (Math_sign (sin (2 * pi * 341 * (real i / sr)))))
                                 (Math_sign (sin (2 * pi * 456 * (real i / sr)))) \<noteq> 0
                           then 1 else - 1) + rnd i * 0.2)
                         * (if type = ''open'' then exp (- (real i / sr) * 3)
                            else exp (- (real i / sr) * 35)))
                 [0..<nat (Math_round
                    ((if type = ''open'' then 1.6 else if type = ''pedal'' then 0.12 else 0.25) * sr))])).
            - 1 \<le> x \<and> x \<le> 1.2"
    proof (rule one_pole_bounds [OF alpha], simp, simp, intro ballI)
      fix n
      assume "n \<in> set (map (\<lambda>i. ((if xor (xor (Math_sign (sin (2 * pi * 215 * (real i / sr))))
                                      (Math_sign (sin (2 * pi * 341 * (real i / sr)))))
                                 (Math_sign (sin (2 * pi * 456 * (real i / sr)))) \<noteq> 0
                           then 1 else - 1) + rnd i * 0.2)
                         * (if type = ''open'' then exp (- (real i / sr) * 3)
                            else exp (- (real i / sr) * 35)))
                 [0..<nat (Math_round
                    ((if type = ''open'' then 1.6 else if type = ''pedal'' then 0.12 else 0.25) * sr))])"
      then obtain i sg where n: "n = (sg + rnd i * 0.2)
                         * (if type = ''open'' then exp (- (real i / sr) * 3)
                            else exp (- (real i / sr) * 35))" and sg: "sg = 1 \<or> sg = - 1"
        by auto
      have t: "0 \<le> real i / sr * 3" "0 \<le> real i / sr * 35" using sr by simp_all
      have e: "0 \<le> (if type = ''open'' then exp (- (real i / sr) * 3)
                            else exp (- (real i / sr) * 35))"
        "(if type = ''open'' then exp (- (real i / sr) * 3)
                            else exp (- (real i / sr) * 35)) \<le> 1"
        using t by simp_all
      have a: "- 1 \<le> sg + rnd i * 0.2" "sg + rnd i * 0.2 \<le> 1.2"
        using sg rnd [of i] by auto
      show "- 1 \<le> n \<and> n \<le> 1.2"
        unfolding n using a e by (intro scale_in_range) simp_all
    qed
  qed simp_all
  then show ?thesis by linarith
qed

subsection \<open>C4: a snare sample above 2\<close>


























subsection \<open>C4: the hi-hats at the sample rate 44100\<close>

















subsection \<open>C4: the snare at the sample rate 44100\<close>

text \<open>The snare is noise of level \<open>A\<close> under the envelope \<open>exp (- 8 t)\<close> plus a tone of
  level 0.8 under \<open>exp (- 12 t)\<close>. The offset the smoothing pass adds for the noise is at
  most \<open>A * (1 - 0.995 ^ i)\<close>; the one it adds for the tone has a closed form, a sinusoid
  of the same frequency under the same envelope plus a term that dies out with
  \<open>0.995 ^ i\<close>.\<close>















subsection \<open>C4: the synthesized buffers\<close>






end
